theory Spec2Isabelle
  imports Complex_Main "HOL-Library.AList" "HOL-Library.Multiset"
begin

section \<open>Values read from the agent reports\<close>

text \<open>
  The script \<^verbatim>\<open>build_handoff.py\<close> reads up to four JSON reports, tags and sorts their
  findings, derives patch candidates, merges candidates with equal keys and writes two
  JSON documents. A value of a finding's member is whatever \<^verbatim>\<open>json.load\<close> returned:
  \<^verbatim>\<open>None\<close>, a \<^verbatim>\<open>bool\<close>, an \<^verbatim>\<open>int\<close>, a finite \<^verbatim>\<open>float\<close> (held by its exact rational
  value), a \<^verbatim>\<open>str\<close>, a \<^verbatim>\<open>list\<close> or a \<^verbatim>\<open>dict\<close>. The non-standard literals
  \<^verbatim>\<open>NaN\<close> and \<^verbatim>\<open>Infinity\<close> are not represented.
\<close>

datatype jvalue =
    JNull
  | JBool bool
  | JInt int
  | JFloat rat
  | JStr string
  | JArr "jvalue list"
  | JObj "(string \<times> jvalue) list"

type_synonym dict = "(string \<times> jvalue) list"

datatype error = OSError | JSONDecodeError | TypeError

text \<open>
  A dictionary key is looked up by hash and \<^verbatim>\<open>==\<close>. Lists and dicts have no hash
  (\<^verbatim>\<open>TypeError: unhashable type\<close>); \<^verbatim>\<open>True == 1 == 1.0\<close> with equal hashes, numbers
  compare by exact value, and \<^verbatim>\<open>None\<close>, numbers and strings are pairwise different.
  \<open>hkey\<close> is the equivalence class of a hashable value under \<^verbatim>\<open>==\<close>.
\<close>

datatype hkey = HNone | HNum rat | HStr string

fun py_hash :: "jvalue \<Rightarrow> error + hkey" where
  "py_hash JNull = Inr HNone"
| "py_hash (JBool b) = Inr (HNum (if b then 1 else 0))"
| "py_hash (JInt i) = Inr (HNum (of_int i))"
| "py_hash (JFloat r) = Inr (HNum r)"
| "py_hash (JStr s) = Inr (HStr s)"
| "py_hash (JArr xs) = Inl TypeError"
| "py_hash (JObj kvs) = Inl TypeError"

text \<open>\<^verbatim>\<open>d.get(k, default)\<close> on a dict with string keys.\<close>

definition dict_get :: "dict \<Rightarrow> string \<Rightarrow> jvalue \<Rightarrow> jvalue" where
  "dict_get d k dflt = (case map_of d k of None \<Rightarrow> dflt | Some v \<Rightarrow> v)"

section \<open>Reports, findings and the files of a run\<close>

text \<open>
  A report that parses is an object; its member \<^verbatim>\<open>findings\<close>, when present, is a list
  of objects (section 6 of the specification); its other members are kept as they are.
\<close>

record report =
  members :: dict
  findings_member :: "dict list option"

text \<open>
  Lines 29-31: \<^verbatim>\<open>item = dict(item); item["agent"] = key\<close>. The copy with its member
  \<^verbatim>\<open>agent\<close> set is held as the pair of the agent key and the copied object; every later
  read of \<^verbatim>\<open>agent\<close> is a read of the first component, and the reads of \<^verbatim>\<open>severity\<close>,
  \<^verbatim>\<open>recommendation\<close> and \<^verbatim>\<open>risk\<close> go to the object.
\<close>

record finding =
  agent :: string
  item :: dict

text \<open>
  What a run finds outside itself: the files that exist, by path (a path with no entry
  does not exist), each one unreadable, unparseable or holding a report; the paths that
  cannot be written; and the text \<^verbatim>\<open>datetime.now().isoformat()\<close> returns.
\<close>

datatype file_content = Unreadable | Unparseable | Parsed report

record world =
  disk :: "(string \<times> file_content) list"
  unwritable :: "string list"
  clock :: string

record invocation =
  run_dir :: string
  run_id :: string
  session_name :: string
  plan_path :: string

text \<open>\<^verbatim>\<open>os.path.join\<close> of POSIX, for a second component that does not start with a slash.\<close>

definition path_join :: "string \<Rightarrow> string \<Rightarrow> string" where
  "path_join a b = (if a = [] \<or> last a = CHR ''/'' then a @ b else a @ ''/'' @ b)"

definition files :: "invocation \<Rightarrow> (string \<times> string) list" where
  "files args =
     [(''logic'', path_join (run_dir args) ''agent-logic.json''),
      (''code_quality'', path_join (run_dir args) ''agent-code-quality.json''),
      (''silent_failure'', path_join (run_dir args) ''agent-silent-failure.json''),
      (''testing_static'', path_join (run_dir args) ''agent-testing-static.json'')]"

definition pending_placeholder :: "string \<Rightarrow> report" where
  "pending_placeholder key =
     \<lparr>members = [(''agent'', JStr key), (''status'', JStr ''pending'')],
      findings_member = Some []\<rparr>"

definition tagged_findings :: "string \<Rightarrow> report \<Rightarrow> finding list" where
  "tagged_findings key data =
     map (\<lambda>it. \<lparr>agent = key, item = it\<rparr>)
       (case findings_member data of None \<Rightarrow> [] | Some its \<Rightarrow> its)"

text \<open>Lines 21-33: the loop over \<^verbatim>\<open>files.items()\<close>, with the two variables it fills.\<close>

fun read_agents ::
  "world \<Rightarrow> (string \<times> string) list \<Rightarrow> (string \<times> report) list \<Rightarrow> finding list
     \<Rightarrow> error + ((string \<times> report) list \<times> finding list)" where
  "read_agents w [] agents all_findings = Inr (agents, all_findings)"
| "read_agents w ((key, fpath) # rest) agents all_findings =
     (case map_of (disk w) fpath of
        None \<Rightarrow>
          read_agents w rest (AList.update key (pending_placeholder key) agents) all_findings
      | Some Unreadable \<Rightarrow> Inl OSError
      | Some Unparseable \<Rightarrow> Inl JSONDecodeError
      | Some (Parsed data) \<Rightarrow>
          read_agents w rest (AList.update key data agents)
            (all_findings @ tagged_findings key data))"

section \<open>Severity order and the sort\<close>

definition severity_order :: "(string \<times> nat) list" where
  "severity_order = [(''Alta'', 0), (''Media'', 1), (''Baja'', 2)]"

text \<open>\<^verbatim>\<open>severity_order.get(v, 9)\<close>: the key is hashed first; only a string can be found.\<close>

definition severity_order_get :: "jvalue \<Rightarrow> error + nat" where
  "severity_order_get v =
     (case py_hash v of
        Inl e \<Rightarrow> Inl e
      | Inr (HStr s) \<Rightarrow> Inr (case map_of severity_order s of None \<Rightarrow> 9 | Some n \<Rightarrow> n)
      | Inr _ \<Rightarrow> Inr 9)"

text \<open>Line 36: the key of the sort of \<^verbatim>\<open>all_findings\<close>.\<close>

definition finding_key :: "finding \<Rightarrow> error + nat" where
  "finding_key x = severity_order_get (dict_get (item x) ''severity'' (JStr ''Baja''))"

text \<open>
  \<^verbatim>\<open>list.sort(key=...)\<close> computes the key of every element first (an exception leaves
  the run with no sort), then sorts the elements by their keys, stably.
\<close>

fun keys_of :: "('a \<Rightarrow> error + nat) \<Rightarrow> 'a list \<Rightarrow> error + nat list" where
  "keys_of f [] = Inr []"
| "keys_of f (x # xs) =
     (case f x of
        Inl e \<Rightarrow> Inl e
      | Inr k \<Rightarrow> (case keys_of f xs of Inl e \<Rightarrow> Inl e | Inr ks \<Rightarrow> Inr (k # ks)))"

definition py_sort :: "('a \<Rightarrow> error + nat) \<Rightarrow> 'a list \<Rightarrow> error + 'a list" where
  "py_sort f xs =
     (case keys_of f xs of
        Inl e \<Rightarrow> Inl e
      | Inr ks \<Rightarrow> Inr (map snd (sort_key fst (zip ks xs))))"

section \<open>Raw patch candidates\<close>

record raw_candidate =
  rc_id :: string
  rc_priority :: jvalue
  rc_source_agent :: string
  rc_change_summary :: jvalue
  rc_risk_if_not_applied :: jvalue
  rc_status :: string
  rc_requires_user_confirmation :: bool
  rc_user_decision :: string
  rc_user_notes :: string

text \<open>The decimal text of a natural number, as an f-string prints it.\<close>

fun str_nat :: "nat \<Rightarrow> string" where
  "str_nat n =
     (if n < 10 then [''0123456789'' ! n]
      else str_nat (n div 10) @ [''0123456789'' ! (n mod 10)])"

declare str_nat.simps [simp del]

definition raw_candidate_of :: "nat \<Rightarrow> finding \<Rightarrow> raw_candidate" where
  "raw_candidate_of idx f =
     \<lparr>rc_id = ''patch-'' @ str_nat idx,
      rc_priority = dict_get (item f) ''severity'' (JStr ''Baja''),
      rc_source_agent = agent f,
      rc_change_summary = dict_get (item f) ''recommendation'' JNull,
      rc_risk_if_not_applied = dict_get (item f) ''risk'' JNull,
      rc_status = ''proposed'',
      rc_requires_user_confirmation = True,
      rc_user_decision = ''deferred'',
      rc_user_notes = ''''\<rparr>"

text \<open>Lines 38-52.\<close>

definition raw_patch_candidates_of :: "finding list \<Rightarrow> raw_candidate list" where
  "raw_patch_candidates_of all_findings =
     map (\<lambda>(idx, f). raw_candidate_of idx f) (List.enumerate 1 (take 30 all_findings))"

section \<open>Deduplication\<close>

record dedup_candidate =
  dc_id :: string
  dc_priority :: jvalue
  dc_change_summary :: jvalue
  dc_risk_if_not_applied :: jvalue
  dc_source_agents :: "string list"
  dc_status :: string
  dc_requires_user_confirmation :: bool
  dc_user_decision :: string
  dc_user_notes :: string

type_synonym dedup_key = "hkey \<times> hkey \<times> hkey"

text \<open>Line 57: the tuple, as the dict hashes it.\<close>

definition tuple_key :: "jvalue \<Rightarrow> jvalue \<Rightarrow> jvalue \<Rightarrow> error + dedup_key" where
  "tuple_key x y z =
     (case py_hash x of
        Inl e \<Rightarrow> Inl e
      | Inr a \<Rightarrow>
          (case py_hash y of
             Inl e \<Rightarrow> Inl e
           | Inr b \<Rightarrow> (case py_hash z of Inl e \<Rightarrow> Inl e | Inr c \<Rightarrow> Inr (a, b, c))))"

definition candidate_key :: "raw_candidate \<Rightarrow> error + dedup_key" where
  "candidate_key p =
     tuple_key (rc_priority p) (rc_change_summary p) (rc_risk_if_not_applied p)"

text \<open>The same tuple, read from an entry of the deduplicated list.\<close>

definition entry_key :: "dedup_candidate \<Rightarrow> error + dedup_key" where
  "entry_key d =
     tuple_key (dc_priority d) (dc_change_summary d) (dc_risk_if_not_applied d)"

definition new_entry :: "nat \<Rightarrow> raw_candidate \<Rightarrow> dedup_candidate" where
  "new_entry n p =
     \<lparr>dc_id = ''patch-dedup-'' @ str_nat (n + 1),
      dc_priority = rc_priority p,
      dc_change_summary = rc_change_summary p,
      dc_risk_if_not_applied = rc_risk_if_not_applied p,
      dc_source_agents = [rc_source_agent p],
      dc_status = ''proposed'',
      dc_requires_user_confirmation = True,
      dc_user_decision = ''deferred'',
      dc_user_notes = ''''\<rparr>"

text \<open>
  Lines 57-72, one turn of the loop. \<^verbatim>\<open>dedup_map\<close> is an insertion-ordered dict: an
  association list in insertion order, keyed by the class of the tuple.
\<close>

definition dedup_step ::
  "(dedup_key \<times> dedup_candidate) list \<Rightarrow> raw_candidate
     \<Rightarrow> error + (dedup_key \<times> dedup_candidate) list" where
  "dedup_step dedup_map p =
     (case candidate_key p of
        Inl e \<Rightarrow> Inl e
      | Inr key \<Rightarrow>
          (case map_of dedup_map key of
             None \<Rightarrow> Inr (dedup_map @ [(key, new_entry (length dedup_map) p)])
           | Some d \<Rightarrow>
               if rc_source_agent p \<notin> set (dc_source_agents d)
               then Inr (AList.update key
                      (d\<lparr>dc_source_agents := dc_source_agents d @ [rc_source_agent p]\<rparr>)
                      dedup_map)
               else Inr dedup_map))"

fun dedup_loop ::
  "raw_candidate list \<Rightarrow> (dedup_key \<times> dedup_candidate) list
     \<Rightarrow> error + (dedup_key \<times> dedup_candidate) list" where
  "dedup_loop [] dedup_map = Inr dedup_map"
| "dedup_loop (p # ps) dedup_map =
     (case dedup_step dedup_map p of
        Inl e \<Rightarrow> Inl e
      | Inr dedup_map' \<Rightarrow> dedup_loop ps dedup_map')"

text \<open>Lines 75-77: the key of the final sort; every entry has the member \<^verbatim>\<open>priority\<close>.\<close>

definition dedup_sort_key :: "dedup_candidate \<Rightarrow> error + nat" where
  "dedup_sort_key x = severity_order_get (dc_priority x)"

text \<open>
  Lines 54-77 as a block over the three variables it reads and writes: it starts from
  an empty \<^verbatim>\<open>dedup_map\<close> and leaves \<^verbatim>\<open>raw_patch_candidates\<close> as it was.
\<close>

record dedup_vars =
  raw_patch_candidates_var :: "raw_candidate list"
  dedup_map_var :: "(dedup_key \<times> dedup_candidate) list"
  deduplicated_patch_candidates_var :: "dedup_candidate list"

definition dedup_block :: "dedup_vars \<Rightarrow> error + dedup_vars" where
  "dedup_block s =
     (case dedup_loop (raw_patch_candidates_var s) [] of
        Inl e \<Rightarrow> Inl e
      | Inr dedup_map \<Rightarrow>
          (case py_sort dedup_sort_key (map snd dedup_map) of
             Inl e \<Rightarrow> Inl e
           | Inr sorted_values \<Rightarrow>
               Inr (s\<lparr>dedup_map_var := dedup_map,
                      deduplicated_patch_candidates_var := sorted_values\<rparr>)))"

definition deduplicate :: "raw_candidate list \<Rightarrow> error + dedup_candidate list" where
  "deduplicate raws =
     (case dedup_block \<lparr>raw_patch_candidates_var = raws, dedup_map_var = [],
                        deduplicated_patch_candidates_var = []\<rparr> of
        Inl e \<Rightarrow> Inl e
      | Inr s \<Rightarrow> Inr (deduplicated_patch_candidates_var s))"

section \<open>The two documents and the run\<close>

record decision =
  patch_id :: string
  user_decision :: string
  user_notes :: string
  approved_by :: string
  approved_at :: string

record confirmation_template =
  ct_run_id :: string
  decisions :: "decision list"

record decision_rules =
  allowed_user_decisions :: "string list"
  default_decision :: string
  requires_user_confirmation :: bool

record handoff =
  schema_version :: string
  handoff_version :: string
  generated_at :: string
  h_run_id :: string
  h_session_name :: string
  h_plan_path :: string
  agent_outputs :: "(string \<times> string) list"
  findings :: "finding list"
  raw_patch_candidates :: "raw_candidate list"
  deduplicated_patch_candidates :: "dedup_candidate list"
  h_decision_rules :: decision_rules
  next_step_for_parent_agent :: string

text \<open>Lines 79-91.\<close>

definition confirmation_template_of :: "invocation \<Rightarrow> dedup_candidate list \<Rightarrow> confirmation_template" where
  "confirmation_template_of args deduplicated =
     \<lparr>ct_run_id = run_id args,
      decisions =
        map (\<lambda>p. \<lparr>patch_id = dc_id p, user_decision = ''deferred'', user_notes = '''',
                   approved_by = '''', approved_at = ''''\<rparr>) deduplicated\<rparr>"

text \<open>Lines 93-110.\<close>

definition handoff_of ::
  "invocation \<Rightarrow> world \<Rightarrow> finding list \<Rightarrow> raw_candidate list \<Rightarrow> dedup_candidate list \<Rightarrow> handoff" where
  "handoff_of args w all_findings raws deduplicated =
     \<lparr>schema_version = ''2.0'',
      handoff_version = ''2.0'',
      generated_at = clock w,
      h_run_id = run_id args,
      h_session_name = session_name args,
      h_plan_path = plan_path args,
      agent_outputs = files args,
      findings = all_findings,
      raw_patch_candidates = raws,
      deduplicated_patch_candidates = deduplicated,
      h_decision_rules =
        \<lparr>allowed_user_decisions = [''approved'', ''rejected'', ''deferred''],
         default_decision = ''deferred'',
         requires_user_confirmation = True\<rparr>,
      next_step_for_parent_agent =
        ''Presentar deduplicated_patch_candidates al usuario, capturar user_decision por patch y aplicar solo approved.''\<rparr>"

datatype document = HandoffDoc handoff | TemplateDoc confirmation_template

text \<open>
  What the script has computed when it reaches line 112, and the outcome of a run: the
  exception it ended with, if any, and the files it wrote, in the order of the writes.
\<close>

record computed =
  agents :: "(string \<times> report) list"
  the_handoff :: handoff
  the_template :: confirmation_template

definition compute :: "invocation \<Rightarrow> world \<Rightarrow> error + computed" where
  "compute args w =
     (case read_agents w (files args) [] [] of
        Inl e \<Rightarrow> Inl e
      | Inr (ags, unsorted) \<Rightarrow>
          (case py_sort finding_key unsorted of
             Inl e \<Rightarrow> Inl e
           | Inr all_findings \<Rightarrow>
               (let raws = raw_patch_candidates_of all_findings in
                case deduplicate raws of
                  Inl e \<Rightarrow> Inl e
                | Inr deduplicated \<Rightarrow>
                    Inr \<lparr>agents = ags,
                         the_handoff = handoff_of args w all_findings raws deduplicated,
                         the_template = confirmation_template_of args deduplicated\<rparr>)))"

record outcome =
  raised :: "error option"
  written :: "(string \<times> document) list"

text \<open>Lines 112-118: the two writes, each of which fails where the path cannot be written.\<close>

definition build_handoff :: "invocation \<Rightarrow> world \<Rightarrow> outcome" where
  "build_handoff args w =
     (case compute args w of
        Inl e \<Rightarrow> \<lparr>raised = Some e, written = []\<rparr>
      | Inr c \<Rightarrow>
          (let handoff_path = path_join (run_dir args) ''handoff.json'';
               confirmation_path = path_join (run_dir args) ''patch-confirmation-template.json''
           in if handoff_path \<in> set (unwritable w) then \<lparr>raised = Some OSError, written = []\<rparr>
              else if confirmation_path \<in> set (unwritable w)
              then \<lparr>raised = Some OSError,
                    written = [(handoff_path, HandoffDoc (the_handoff c))]\<rparr>
              else \<lparr>raised = None,
                    written = [(handoff_path, HandoffDoc (the_handoff c)),
                               (confirmation_path, TemplateDoc (the_template c))]\<rparr>))"

text \<open>
  The text of a document: how \<^verbatim>\<open>json.dump\<close> renders the member \<^verbatim>\<open>agent_outputs\<close>, a
  dict from strings to strings, and the read of a member of a JSON value.
\<close>

definition agent_outputs_json :: "handoff \<Rightarrow> jvalue" where
  "agent_outputs_json h = JObj (map (\<lambda>(k, p). (k, JStr p)) (agent_outputs h))"

fun json_member :: "jvalue \<Rightarrow> string \<Rightarrow> jvalue option" where
  "json_member (JObj kvs) k = map_of kvs k"
| "json_member v k = None"

section \<open>Notions of the specification\<close>

text \<open>
  The distinct elements of a list in the order of their first occurrence, the three
  severities that have a rank of their own, and the findings of the reports that exist,
  in the order of the agents and, for one agent, in the order of its report.
\<close>

fun first_occurrences :: "'a list \<Rightarrow> 'a list" where
  "first_occurrences [] = []"
| "first_occurrences (x # xs) = x # removeAll x (first_occurrences xs)"

definition known_severity :: "jvalue \<Rightarrow> bool" where
  "known_severity v = (v = JStr ''Alta'' \<or> v = JStr ''Media'' \<or> v = JStr ''Baja'')"

definition input_findings :: "invocation \<Rightarrow> world \<Rightarrow> finding list" where
  "input_findings args w =
     concat (map (\<lambda>(key, fpath).
        case map_of (disk w) fpath of
          Some (Parsed data) \<Rightarrow> tagged_findings key data
        | _ \<Rightarrow> []) (files args))"

text \<open>The entry of \<^verbatim>\<open>agent_outputs\<close> for an agent in the handoff document a run wrote.\<close>

definition emitted_agent_output :: "invocation \<Rightarrow> world \<Rightarrow> string \<Rightarrow> jvalue option" where
  "emitted_agent_output args w key =
     (case written (build_handoff args w) of
        (p, HandoffDoc h) # rest \<Rightarrow> json_member (agent_outputs_json h) key
      | _ \<Rightarrow> None)"

text \<open>
  The invariant of the loop of lines 56-72 after the raw candidates \<open>rs\<close>: the keys of
  \<^verbatim>\<open>dedup_map\<close> are the distinct keys of \<open>rs\<close> in the order of their first occurrence,
  and the entry of a key holds that key and the distinct source agents of the candidates
  of that key, in the order of their first occurrence.
\<close>

definition dedup_inv :: "raw_candidate list \<Rightarrow> (dedup_key \<times> dedup_candidate) list \<Rightarrow> bool" where
  "dedup_inv rs m \<longleftrightarrow>
     map (\<lambda>kd. Inr (fst kd)) m = first_occurrences (map candidate_key rs) \<and>
     (\<forall>k d. map_of m k = Some d \<longrightarrow>
        entry_key d = Inr k \<and>
        dc_source_agents d =
          first_occurrences (map rc_source_agent (filter (\<lambda>p. candidate_key p = Inr k) rs)))"

section \<open>Example runs\<close>

text \<open>
  Sorted findings of three agents: three with the same severity, recommendation and
  risk, one with a severity that has no rank, and one of low severity.
\<close>

definition merge_scenario :: "finding list" where
  "merge_scenario =
     [\<lparr>agent = ''logic'',
       item = [(''severity'', JStr ''Alta''), (''recommendation'', JStr ''Validate the input''),
               (''risk'', JStr ''Crash'')]\<rparr>,
      \<lparr>agent = ''code_quality'',
       item = [(''severity'', JStr ''Alta''), (''recommendation'', JStr ''Validate the input''),
               (''risk'', JStr ''Crash'')]\<rparr>,
      \<lparr>agent = ''logic'',
       item = [(''severity'', JStr ''Desconocida''), (''recommendation'', JStr ''Rename'')]\<rparr>,
      \<lparr>agent = ''logic'',
       item = [(''severity'', JStr ''Alta''), (''recommendation'', JStr ''Validate the input''),
               (''risk'', JStr ''Crash'')]\<rparr>,
      \<lparr>agent = ''testing_static'',
       item = [(''severity'', JStr ''Baja''), (''recommendation'', JStr ''Add a test'')]\<rparr>]"

section \<open>The sort: what a successful sort returns\<close>

lemma keys_of_Inr:
  "keys_of f xs = Inr ks \<Longrightarrow> ks = map (\<lambda>x. projr (f x)) xs \<and> (\<forall>x\<in>set xs. f x = Inr (projr (f x)))"
  by (induction xs arbitrary: ks) (auto split: sum.splits)

lemma keys_of_total:
  "\<forall>x\<in>set xs. \<exists>n. f x = Inr n \<Longrightarrow> keys_of f xs = Inr (map (\<lambda>x. projr (f x)) xs)"
  by (induction xs) (auto split: sum.splits)

lemma keys_of_Inl:
  "keys_of f xs = Inl e \<Longrightarrow> \<exists>x\<in>set xs. f x = Inl e"
  by (induction xs) (auto split: sum.splits)

lemma insort_key_decorated:
  "insort_key fst (g x, x) (map (\<lambda>y. (g y, y)) ys) = map (\<lambda>y. (g y, y)) (insort_key g x ys)"
  by (induction ys) auto

lemma sort_key_decorated:
  "sort_key fst (zip (map g xs) xs) = map (\<lambda>y. (g y, y)) (sort_key g xs)"
  by (induction xs) (auto simp: insort_key_decorated)

lemma py_sort_Inr:
  assumes "py_sort f xs = Inr ys"
  shows "ys = sort_key (\<lambda>x. projr (f x)) xs" and "\<forall>x\<in>set xs. f x = Inr (projr (f x))"
proof -
  from assms obtain ks where ks: "keys_of f xs = Inr ks"
    and ys: "ys = map snd (sort_key fst (zip ks xs))"
    by (auto simp: py_sort_def split: sum.splits)
  from keys_of_Inr [OF ks] have k: "ks = map (\<lambda>x. projr (f x)) xs"
    and t: "\<forall>x\<in>set xs. f x = Inr (projr (f x))" by auto
  show "\<forall>x\<in>set xs. f x = Inr (projr (f x))" by (rule t)
  show "ys = sort_key (\<lambda>x. projr (f x)) xs"
    unfolding ys k sort_key_decorated by (simp add: comp_def)
qed

lemma py_sort_total:
  "\<forall>x\<in>set xs. \<exists>n. f x = Inr n \<Longrightarrow> \<exists>ys. py_sort f xs = Inr ys"
  by (simp add: py_sort_def keys_of_total)

lemma py_sort_Inl:
  "py_sort f xs = Inl e \<Longrightarrow> \<exists>x\<in>set xs. f x = Inl e"
  by (auto simp: py_sort_def split: sum.splits dest: keys_of_Inl)

lemma py_sort_mset: "py_sort f xs = Inr ys \<Longrightarrow> mset ys = mset xs"
  by (drule py_sort_Inr(1)) simp

lemma py_sort_set: "py_sort f xs = Inr ys \<Longrightarrow> set ys = set xs"
  by (drule py_sort_Inr(1)) simp

lemma py_sort_length: "py_sort f xs = Inr ys \<Longrightarrow> length ys = length xs"
  by (drule py_sort_Inr(1)) simp

lemma py_sort_keys: "py_sort f xs = Inr ys \<Longrightarrow> y \<in> set ys \<Longrightarrow> f y = Inr (projr (f y))"
  using py_sort_Inr(2) py_sort_set by blast

lemma py_sort_sorted: "py_sort f xs = Inr ys \<Longrightarrow> sorted (map (\<lambda>x. projr (f x)) ys)"
  by (drule py_sort_Inr(1)) simp

lemma py_sort_precedes:
  assumes "py_sort f xs = Inr ys" "i < length ys" "j < length ys"
    "f (ys ! i) = Inr a" "f (ys ! j) = Inr b" "a < b"
  shows "i < j"
proof (rule ccontr)
  assume "\<not> i < j"
  then have "j \<le> i" by simp
  with py_sort_sorted [OF assms(1)] assms(2)
  have "map (\<lambda>x. projr (f x)) ys ! j \<le> map (\<lambda>x. projr (f x)) ys ! i"
    by (simp add: sorted_iff_nth_mono del: map_map)
  with assms show False by simp
qed

lemma py_sort_stable:
  assumes "py_sort f xs = Inr ys"
  shows "filter (\<lambda>x. f x = Inr k) ys = filter (\<lambda>x. f x = Inr k) xs"
proof -
  let ?g = "\<lambda>x. projr (f x)"
  have eq: "\<And>zs. set zs \<subseteq> set xs \<Longrightarrow> filter (\<lambda>x. f x = Inr k) zs = filter (\<lambda>x. ?g x = k) zs"
  proof (rule filter_cong)
    fix zs x assume "set zs \<subseteq> set xs" "x \<in> set zs"
    then have "f x = Inr (?g x)" using py_sort_Inr(2) [OF assms] by blast
    then show "(f x = Inr k) = (?g x = k)" by (metis sum.inject(2))
  qed simp
  have "filter (\<lambda>x. f x = Inr k) ys = filter (\<lambda>x. ?g x = k) ys"
    using eq [of ys] py_sort_set [OF assms] by simp
  also have "\<dots> = filter (\<lambda>x. ?g x = k) xs"
    by (simp add: py_sort_Inr(1) [OF assms] sort_key_stable)
  also have "\<dots> = filter (\<lambda>x. f x = Inr k) xs"
    using eq [of xs] by simp
  finally show ?thesis .
qed

section \<open>The loop of the deduplication\<close>

lemma set_first_occurrences [simp]: "set (first_occurrences xs) = set xs"
  by (induction xs) auto

lemma distinct_first_occurrences [simp]: "distinct (first_occurrences xs)"
  by (induction xs) (auto simp: distinct_removeAll)

lemma first_occurrences_snoc:
  "first_occurrences (xs @ [x]) =
     (if x \<in> set xs then first_occurrences xs else first_occurrences xs @ [x])"
  by (induction xs) auto

lemma first_occurrences_eq_Nil [simp]: "first_occurrences xs = [] \<longleftrightarrow> xs = []"
  by (cases xs) auto

lemma hd_first_occurrences: "xs \<noteq> [] \<Longrightarrow> hd (first_occurrences xs) = hd xs"
  by (cases xs) auto

lemma length_first_occurrences: "length (first_occurrences xs) \<le> length xs"
proof (induction xs)
  case (Cons x xs)
  have "length (removeAll x (first_occurrences xs)) \<le> length (first_occurrences xs)"
    by (rule length_removeAll_less_eq)
  with Cons have "length (removeAll x (first_occurrences xs)) \<le> length xs"
    by linarith
  then show ?case by simp
qed simp

lemma dedup_loop_snoc:
  "dedup_loop (ps @ [p]) m =
     (case dedup_loop ps m of Inl e \<Rightarrow> Inl e | Inr m' \<Rightarrow> dedup_step m' p)"
  by (induction ps arbitrary: m) (auto split: sum.splits)

lemma dedup_inv_distinct: "dedup_inv rs m \<Longrightarrow> distinct (map fst m)"
proof -
  assume "dedup_inv rs m"
  then have "distinct (map (\<lambda>kd. (Inr (fst kd) :: error + dedup_key)) m)"
    by (simp add: dedup_inv_def)
  then have "distinct (map (Inr :: dedup_key \<Rightarrow> error + dedup_key) (map fst m))"
    by (simp add: comp_def)
  then show ?thesis by (rule distinct_map [THEN iffD1, THEN conjunct1])
qed

lemma dedup_inv_keys: "dedup_inv rs m \<Longrightarrow> Inr ` fst ` set m = set (map candidate_key rs)"
proof -
  assume "dedup_inv rs m"
  then have "set (map (\<lambda>kd. (Inr (fst kd) :: error + dedup_key)) m) = set (first_occurrences (map candidate_key rs))"
    by (simp add: dedup_inv_def)
  then show ?thesis by (simp add: image_image)
qed

lemma entry_key_new_entry [simp]: "entry_key (new_entry n p) = candidate_key p"
  by (simp add: entry_key_def candidate_key_def new_entry_def)

lemma dedup_step_inv:
  assumes inv: "dedup_inv rs m" and step: "dedup_step m p = Inr m'"
  shows "dedup_inv (rs @ [p]) m'"
proof -
  from step obtain key where key: "candidate_key p = Inr key"
    by (auto simp: dedup_step_def split: sum.splits)
  have keys: "Inr ` fst ` set m = set (map candidate_key rs)" by (rule dedup_inv_keys [OF inv])
  have dist: "distinct (map fst m)" by (rule dedup_inv_distinct [OF inv])
  have fo: "map (\<lambda>kd. Inr (fst kd)) m = first_occurrences (map candidate_key rs)"
    using inv by (simp add: dedup_inv_def)
  have ent: "\<And>k d. map_of m k = Some d \<Longrightarrow> entry_key d = Inr k \<and>
        dc_source_agents d =
          first_occurrences (map rc_source_agent (filter (\<lambda>p. candidate_key p = Inr k) rs))"
    using inv unfolding dedup_inv_def by blast
  show ?thesis
  proof (cases "map_of m key")
    case None
    then have m': "m' = m @ [(key, new_entry (length m) p)]"
      using step key by (simp add: dedup_step_def)
    from None have notin: "key \<notin> fst ` set m" by (simp add: map_of_eq_None_iff)
    then have new: "Inr key \<notin> set (map candidate_key rs)"
      using keys by (metis (no_types, lifting) image_iff sum.inject(2))
    then have nofilter: "filter (\<lambda>p. candidate_key p = Inr key) rs = []"
      by (force simp: filter_empty_conv)
    have 1: "map (\<lambda>kd. Inr (fst kd)) m' = first_occurrences (map candidate_key (rs @ [p]))"
      using new fo by (simp add: m' first_occurrences_snoc key)
    have 2: "entry_key d = Inr k \<and> dc_source_agents d =
          first_occurrences (map rc_source_agent (filter (\<lambda>p. candidate_key p = Inr k) (rs @ [p])))"
      if "map_of m' k = Some d" for k d
    proof (cases "k = key")
      case True
      with that None have "d = new_entry (length m) p"
        by (simp add: m' map_add_Some_iff)
      then show ?thesis using True key nofilter by (simp add: new_entry_def entry_key_def candidate_key_def)
    next
      case False
      with that have "map_of m k = Some d" by (simp add: m' map_add_Some_iff)
      from ent [OF this] False key show ?thesis by auto
    qed
    show ?thesis unfolding dedup_inv_def using 1 2 by blast
  next
    case (Some d0)
    then have kin: "key \<in> fst ` set m" by (metis map_of_eq_None_iff option.distinct(1))
    then have old: "Inr key \<in> set (map candidate_key rs)" using keys by blast
    have d0: "entry_key d0 = Inr key" "dc_source_agents d0 =
          first_occurrences (map rc_source_agent (filter (\<lambda>p. candidate_key p = Inr key) rs))"
      using ent [OF Some] by auto
    have fo': "first_occurrences (map candidate_key (rs @ [p])) = first_occurrences (map candidate_key rs)"
      using old by (simp add: first_occurrences_snoc key)
    show ?thesis
    proof (cases "rc_source_agent p \<in> set (dc_source_agents d0)")
      case True
      then have m': "m' = m" using step key Some by (simp add: dedup_step_def)
      have 2: "entry_key d = Inr k \<and> dc_source_agents d =
          first_occurrences (map rc_source_agent (filter (\<lambda>p. candidate_key p = Inr k) (rs @ [p])))"
        if "map_of m k = Some d" for k d
      proof (cases "k = key")
        case k: True
        with that Some have "d = d0" by simp
        then show ?thesis using k d0 True key by (simp add: first_occurrences_snoc)
      next
        case False
        from ent [OF that] False key show ?thesis by auto
      qed
      show ?thesis unfolding dedup_inv_def m' using fo fo' 2 by simp
    next
      case False
      then have m': "m' = AList.update key (d0\<lparr>dc_source_agents := dc_source_agents d0 @ [rc_source_agent p]\<rparr>) m"
        using step key Some by (simp add: dedup_step_def)
      have fst_eq: "map fst m' = map fst m" using kin by (simp add: m' update_keys)
      have 1: "map (\<lambda>kd. Inr (fst kd)) m' = first_occurrences (map candidate_key (rs @ [p]))"
      proof -
        have "map (\<lambda>kd. (Inr (fst kd) :: error + dedup_key)) m' = map Inr (map fst m')" by (simp add: comp_def)
        also have "\<dots> = map Inr (map fst m)" by (simp only: fst_eq)
        also have "\<dots> = map (\<lambda>kd. Inr (fst kd)) m" by (simp add: comp_def)
        finally show ?thesis using fo fo' by simp
      qed
      have 2: "entry_key d = Inr k \<and> dc_source_agents d =
          first_occurrences (map rc_source_agent (filter (\<lambda>p. candidate_key p = Inr k) (rs @ [p])))"
        if "map_of m' k = Some d" for k d
      proof (cases "k = key")
        case k: True
        with that have "d = d0\<lparr>dc_source_agents := dc_source_agents d0 @ [rc_source_agent p]\<rparr>"
          by (simp add: m' update_conv')
        then show ?thesis using k d0 False key by (simp add: first_occurrences_snoc entry_key_def)
      next
        case nk: False
        with that have "map_of m k = Some d" by (simp add: m' update_conv')
        from ent [OF this] nk key show ?thesis by auto
      qed
      show ?thesis unfolding dedup_inv_def using 1 2 by blast
    qed
  qed
qed

lemma dedup_loop_inv: "dedup_loop rs [] = Inr m \<Longrightarrow> dedup_inv rs m"
proof (induction rs arbitrary: m rule: rev_induct)
  case Nil
  then show ?case by (simp add: dedup_inv_def)
next
  case (snoc p rs)
  from snoc.prems obtain m0 where m0: "dedup_loop rs [] = Inr m0" and st: "dedup_step m0 p = Inr m"
    by (auto simp: dedup_loop_snoc split: sum.splits)
  from dedup_step_inv [OF snoc.IH [OF m0] st] show ?case .
qed

section \<open>The deduplicated list\<close>

lemma deduplicate_Inr:
  assumes "deduplicate rs = Inr ds"
  obtains m where "dedup_loop rs [] = Inr m" and "py_sort dedup_sort_key (map snd m) = Inr ds"
  using assms by (auto simp: deduplicate_def dedup_block_def split: sum.splits)

lemma dedup_inv_entry:
  assumes "dedup_inv rs m" and "d \<in> snd ` set m"
  shows "entry_key d \<in> set (map candidate_key rs)"
    and "dc_source_agents d =
          first_occurrences (map rc_source_agent (filter (\<lambda>p. candidate_key p = entry_key d) rs))"
proof -
  from assms(2) obtain k where kd: "(k, d) \<in> set m" by auto
  with dedup_inv_distinct [OF assms(1)] have mo: "map_of m k = Some d" by simp
  with assms(1) have ek: "entry_key d = Inr k" and sa: "dc_source_agents d =
          first_occurrences (map rc_source_agent (filter (\<lambda>p. candidate_key p = Inr k) rs))"
    unfolding dedup_inv_def by blast+
  from kd have "(Inr k :: error + dedup_key) \<in> Inr ` fst ` set m" by force
  with dedup_inv_keys [OF assms(1)] ek show "entry_key d \<in> set (map candidate_key rs)" by simp
  from sa ek show "dc_source_agents d =
          first_occurrences (map rc_source_agent (filter (\<lambda>p. candidate_key p = entry_key d) rs))"
    by simp
qed

lemma dedup_inv_entry_keys:
  assumes "dedup_inv rs m"
  shows "map entry_key (map snd m) = first_occurrences (map candidate_key rs)"
proof -
  have "map entry_key (map snd m) = map (\<lambda>kd. Inr (fst kd)) m"
  proof (simp, intro ballI)
    fix kd assume "kd \<in> set m"
    then have "(fst kd, snd kd) \<in> set m" by simp
    with dedup_inv_distinct [OF assms] have "map_of m (fst kd) = Some (snd kd)" by simp
    with assms show "entry_key (snd kd) = Inr (fst kd)" unfolding dedup_inv_def by blast
  qed
  with assms show ?thesis by (simp add: dedup_inv_def)
qed

lemma dedup_step_total:
  "candidate_key p = Inr k \<Longrightarrow> \<exists>m'. dedup_step m p = Inr m'"
  by (simp add: dedup_step_def split: option.splits)

lemma dedup_loop_total:
  "\<forall>p\<in>set rs. \<exists>k. candidate_key p = Inr k \<Longrightarrow> \<exists>m'. dedup_loop rs m = Inr m'"
proof (induction rs arbitrary: m)
  case (Cons p rs)
  then obtain k where "candidate_key p = Inr k" by auto
  from dedup_step_total [OF this] obtain m1 where "dedup_step m p = Inr m1" by blast
  with Cons show ?case by simp
qed simp

lemma severity_order_get_hashable:
  "py_hash v = Inr h \<Longrightarrow> \<exists>n. severity_order_get v = Inr n"
  by (simp add: severity_order_get_def split: hkey.splits)

lemma tuple_key_Inr:
  "tuple_key x y z = Inr k \<Longrightarrow> \<exists>a b c. py_hash x = Inr a \<and> py_hash y = Inr b \<and> py_hash z = Inr c \<and> k = (a, b, c)"
  by (auto simp: tuple_key_def split: sum.splits)

lemma deduplicate_total:
  assumes "\<forall>p\<in>set rs. \<exists>k. candidate_key p = Inr k"
  shows "\<exists>ds. deduplicate rs = Inr ds"
proof -
  from dedup_loop_total [OF assms] obtain m where m: "dedup_loop rs [] = Inr m" by blast
  have "\<forall>d\<in>set (map snd m). \<exists>n. dedup_sort_key d = Inr n"
  proof
    fix d assume "d \<in> set (map snd m)"
    then have "d \<in> snd ` set m" by simp
    from dedup_inv_entry(1) [OF dedup_loop_inv [OF m] this] assms
    obtain k where "entry_key d = Inr k" by auto
    then obtain a where "py_hash (dc_priority d) = Inr a"
      unfolding entry_key_def by (blast dest: tuple_key_Inr)
    then show "\<exists>n. dedup_sort_key d = Inr n"
      unfolding dedup_sort_key_def by (rule severity_order_get_hashable)
  qed
  from py_sort_total [OF this] obtain ds where "py_sort dedup_sort_key (map snd m) = Inr ds" by blast
  with m show ?thesis by (simp add: deduplicate_def dedup_block_def)
qed

text \<open>
  Claim C3. Whenever the deduplication returns a list, no two of its entries have the
  same key (priority, change_summary, risk_if_not_applied), neither as the dict compares
  keys nor as values; and the \<^verbatim>\<open>source_agents\<close> of an entry are the source agents of
  the raw candidates of its key, each once, in the order of their first occurrence.
\<close>

theorem dedup_keys_unique_source_agents_first_seen:
  assumes "deduplicate rs = Inr ds"
  shows "distinct (map entry_key ds) \<and>
         distinct (map (\<lambda>d. (dc_priority d, dc_change_summary d, dc_risk_if_not_applied d)) ds) \<and>
         (\<forall>d\<in>set ds.
            dc_source_agents d =
              first_occurrences
                (map rc_source_agent (filter (\<lambda>p. candidate_key p = entry_key d) rs)) \<and>
            distinct (dc_source_agents d))"
proof -
  from assms obtain m where m: "dedup_loop rs [] = Inr m"
    and s: "py_sort dedup_sort_key (map snd m) = Inr ds" by (rule deduplicate_Inr)
  have inv: "dedup_inv rs m" by (rule dedup_loop_inv [OF m])
  have "distinct (map entry_key (map snd m))"
    by (simp only: dedup_inv_entry_keys [OF inv] distinct_first_occurrences)
  moreover have "mset (map entry_key ds) = mset (map entry_key (map snd m))"
    using py_sort_mset [OF s] by (metis mset_map)
  ultimately have 1: "distinct (map entry_key ds)"
    by (metis mset_eq_imp_distinct_iff)
  have "map entry_key ds =
        map (\<lambda>t. tuple_key (fst t) (fst (snd t)) (snd (snd t)))
          (map (\<lambda>d. (dc_priority d, dc_change_summary d, dc_risk_if_not_applied d)) ds)"
    by (simp add: entry_key_def comp_def)
  with 1 have "distinct (map (\<lambda>t. tuple_key (fst t) (fst (snd t)) (snd (snd t)))
          (map (\<lambda>d. (dc_priority d, dc_change_summary d, dc_risk_if_not_applied d)) ds))"
    by (simp only:)
  then have 2: "distinct (map (\<lambda>d. (dc_priority d, dc_change_summary d, dc_risk_if_not_applied d)) ds)"
    by (rule distinct_map [THEN iffD1, THEN conjunct1])
  have 3: "dc_source_agents d =
              first_occurrences
                (map rc_source_agent (filter (\<lambda>p. candidate_key p = entry_key d) rs)) \<and>
            distinct (dc_source_agents d)" if "d \<in> set ds" for d
  proof -
    from that py_sort_set [OF s] have "d \<in> snd ` set m" by simp
    from dedup_inv_entry(2) [OF inv this] show ?thesis by simp
  qed
  from 1 2 3 show ?thesis by blast
qed

text \<open>
  Claim C10. Whenever the deduplication returns a list, every entry has a non-empty
  \<^verbatim>\<open>source_agents\<close> that starts with the source agent of the first raw candidate of its
  key; and for a non-empty list of raw candidates the number of entries is at least 1
  and at most the number of raw candidates.
\<close>

theorem dedup_source_agents_nonempty_and_count:
  assumes "deduplicate rs = Inr ds"
  shows "(\<forall>d\<in>set ds.
            dc_source_agents d \<noteq> [] \<and>
            filter (\<lambda>p. candidate_key p = entry_key d) rs \<noteq> [] \<and>
            hd (dc_source_agents d) =
              rc_source_agent (hd (filter (\<lambda>p. candidate_key p = entry_key d) rs))) \<and>
         (rs \<noteq> [] \<longrightarrow> 1 \<le> length ds \<and> length ds \<le> length rs)"
proof -
  from assms obtain m where m: "dedup_loop rs [] = Inr m"
    and s: "py_sort dedup_sort_key (map snd m) = Inr ds" by (rule deduplicate_Inr)
  have inv: "dedup_inv rs m" by (rule dedup_loop_inv [OF m])
  have 1: "dc_source_agents d \<noteq> [] \<and>
            filter (\<lambda>p. candidate_key p = entry_key d) rs \<noteq> [] \<and>
            hd (dc_source_agents d) =
              rc_source_agent (hd (filter (\<lambda>p. candidate_key p = entry_key d) rs))"
    if "d \<in> set ds" for d
  proof -
    let ?ps = "filter (\<lambda>p. candidate_key p = entry_key d) rs"
    from that py_sort_set [OF s] have d: "d \<in> snd ` set m" by simp
    from dedup_inv_entry(1) [OF inv d] have ne: "?ps \<noteq> []"
      by (auto simp: filter_empty_conv)
    have sa: "dc_source_agents d = first_occurrences (map rc_source_agent ?ps)"
      by (rule dedup_inv_entry(2) [OF inv d])
    from ne have "hd (first_occurrences (map rc_source_agent ?ps)) = rc_source_agent (hd ?ps)"
      by (simp add: hd_first_occurrences hd_map)
    with ne sa show ?thesis by simp
  qed
  have len: "length ds = length (first_occurrences (map candidate_key rs))"
    using py_sort_length [OF s] dedup_inv_entry_keys [OF inv]
    by (metis length_map)
  have "length (first_occurrences (map candidate_key rs)) \<le> length rs"
    using length_first_occurrences [of "map candidate_key rs"] by simp
  moreover have "rs \<noteq> [] \<Longrightarrow> 1 \<le> length (first_occurrences (map candidate_key rs))"
    by (cases rs) auto
  ultimately show ?thesis using 1 len by auto
qed

text \<open>
  Claim C8. The block of the deduplication run on two states with the same raw
  candidates yields the same deduplicated list (the same ids, order and source agents),
  whatever the earlier run left in the other two variables; it leaves the raw
  candidates as they were, and run again on its own result it returns that result.
\<close>

theorem dedup_block_repeatable:
  assumes "raw_patch_candidates_var s1 = raw_patch_candidates_var s2"
    and "dedup_block s1 = Inr t1"
  shows "(\<exists>t2. dedup_block s2 = Inr t2 \<and>
            deduplicated_patch_candidates_var t2 = deduplicated_patch_candidates_var t1 \<and>
            map dc_id (deduplicated_patch_candidates_var t2) =
              map dc_id (deduplicated_patch_candidates_var t1) \<and>
            map dc_source_agents (deduplicated_patch_candidates_var t2) =
              map dc_source_agents (deduplicated_patch_candidates_var t1)) \<and>
         raw_patch_candidates_var t1 = raw_patch_candidates_var s1 \<and>
         dedup_block t1 = Inr t1"
  using assms by (auto simp: dedup_block_def split: sum.splits)


text \<open>
  The merge scenario: the candidates of \<open>logic\<close> and \<open>code_quality\<close> with the same
  severity, recommendation and risk become one entry with both agents, in that order.
\<close>

lemma merge_scenario_deduplicated: "deduplicate (raw_patch_candidates_of merge_scenario) = Inr
  [\<lparr>dc_id = ''patch-dedup-1'', dc_priority = JStr ''Alta'',
      dc_change_summary = JStr ''Validate the input'', dc_risk_if_not_applied = JStr ''Crash'',
      dc_source_agents = [''logic'', ''code_quality''], dc_status = ''proposed'',
      dc_requires_user_confirmation = True, dc_user_decision = ''deferred'',
      dc_user_notes = ''''\<rparr>,
   \<lparr>dc_id = ''patch-dedup-3'', dc_priority = JStr ''Baja'',
      dc_change_summary = JStr ''Add a test'', dc_risk_if_not_applied = JNull,
      dc_source_agents = [''testing_static''], dc_status = ''proposed'',
      dc_requires_user_confirmation = True, dc_user_decision = ''deferred'',
      dc_user_notes = ''''\<rparr>,
   \<lparr>dc_id = ''patch-dedup-2'', dc_priority = JStr ''Desconocida'',
      dc_change_summary = JStr ''Rename'', dc_risk_if_not_applied = JNull,
      dc_source_agents = [''logic''], dc_status = ''proposed'',
      dc_requires_user_confirmation = True, dc_user_decision = ''deferred'',
      dc_user_notes = ''''\<rparr>]"
  by code_simp

theorem dedup_keys_unique_source_agents_first_seen_witness:
  "\<exists>ds. deduplicate (raw_patch_candidates_of merge_scenario) = Inr ds \<and>
        map dc_source_agents ds = [[''logic'', ''code_quality''], [''testing_static''], [''logic'']] \<and>
        distinct (map entry_key ds) \<and>
         distinct (map (\<lambda>d. (dc_priority d, dc_change_summary d, dc_risk_if_not_applied d)) ds) \<and>
         (\<forall>d\<in>set ds.
            dc_source_agents d =
              first_occurrences
                (map rc_source_agent (filter (\<lambda>p. candidate_key p = entry_key d) (raw_patch_candidates_of merge_scenario))) \<and>
            distinct (dc_source_agents d))"
  using dedup_keys_unique_source_agents_first_seen [OF merge_scenario_deduplicated] merge_scenario_deduplicated
  by (intro exI conjI) (assumption | simp)+


theorem dedup_source_agents_nonempty_and_count_witness:
  "\<exists>ds. deduplicate (raw_patch_candidates_of merge_scenario) = Inr ds \<and>
        raw_patch_candidates_of merge_scenario \<noteq> [] \<and>
        (\<forall>d\<in>set ds.
            dc_source_agents d \<noteq> [] \<and>
            filter (\<lambda>p. candidate_key p = entry_key d) (raw_patch_candidates_of merge_scenario) \<noteq> [] \<and>
            hd (dc_source_agents d) =
              rc_source_agent (hd (filter (\<lambda>p. candidate_key p = entry_key d) (raw_patch_candidates_of merge_scenario)))) \<and>
        1 \<le> length ds \<and> length ds \<le> length (raw_patch_candidates_of merge_scenario)"
proof -
  have ne: "raw_patch_candidates_of merge_scenario \<noteq> []"
    by (simp add: raw_patch_candidates_of_def merge_scenario_def enumerate_eq_zip)
  from dedup_source_agents_nonempty_and_count [OF merge_scenario_deduplicated] ne merge_scenario_deduplicated show ?thesis by blast
qed

theorem dedup_block_repeatable_witness:
  "\<exists>t1. dedup_block \<lparr>raw_patch_candidates_var = raw_patch_candidates_of merge_scenario,
                       dedup_map_var = [], deduplicated_patch_candidates_var = []\<rparr> = Inr t1 \<and>
        (\<exists>t2. dedup_block \<lparr>raw_patch_candidates_var = raw_patch_candidates_of merge_scenario,
                       dedup_map_var = [],
                       deduplicated_patch_candidates_var = [new_entry 6 (raw_candidate_of 7 (hd merge_scenario))]\<rparr> = Inr t2 \<and>
            deduplicated_patch_candidates_var t2 = deduplicated_patch_candidates_var t1 \<and>
            map dc_id (deduplicated_patch_candidates_var t2) =
              map dc_id (deduplicated_patch_candidates_var t1) \<and>
            map dc_source_agents (deduplicated_patch_candidates_var t2) =
              map dc_source_agents (deduplicated_patch_candidates_var t1)) \<and>
        raw_patch_candidates_var t1 = raw_patch_candidates_of merge_scenario \<and>
        dedup_block t1 = Inr t1"
proof -
  let ?s1 = "\<lparr>raw_patch_candidates_var = raw_patch_candidates_of merge_scenario,
                       dedup_map_var = [], deduplicated_patch_candidates_var = []\<rparr>"
  let ?s2 = "\<lparr>raw_patch_candidates_var = raw_patch_candidates_of merge_scenario,
                       dedup_map_var = [],
                       deduplicated_patch_candidates_var = [new_entry 6 (raw_candidate_of 7 (hd merge_scenario))]\<rparr>"
  from merge_scenario_deduplicated obtain t1 where t1: "dedup_block ?s1 = Inr t1"
    by (auto simp: deduplicate_def split: sum.splits)
  have eq: "raw_patch_candidates_var ?s1 = raw_patch_candidates_var ?s2" by simp
  from dedup_block_repeatable [OF eq t1] t1 show ?thesis by auto
qed

end
